theory Spec2Isabelle
  imports Complex_Main
begin

section \<open>Arrays\<close>

text \<open>
  The script \<^verbatim>\<open>custom_scripts/F_evaluate_quantitative.py\<close> works on three-dimensional
  numpy arrays. An array is modelled by its shape and the value stored at each position;
  only the positions inside the shape are ever read. Voxel labels are integers, instance
  identifiers (the output of the connected-component labelling) are natural numbers.
\<close>

type_synonym shape = "nat \<times> nat \<times> nat"
type_synonym pos = "nat \<times> nat \<times> nat"

record 'a ndarray =
  shape :: shape
  item :: "pos \<Rightarrow> 'a"

text \<open>The exceptions that the modelled code can raise.\<close>

datatype error = ValueError | IndexError | AssertionError | KeyError | ZeroDivisionError | OSError

text \<open>All positions of an array of the given shape, in C (row-major) order.\<close>

definition indices :: "shape \<Rightarrow> pos list" where
  "indices s = (case s of (nx, ny, nz) \<Rightarrow>
     concat (map (\<lambda>i. concat (map (\<lambda>j. map (\<lambda>k. (i, j, k)) [0..<nz]) [0..<ny])) [0..<nx]))"

text \<open>The values of an array in C order (\<^verbatim>\<open>a.flatten()\<close>).\<close>

definition flatten :: "'a ndarray \<Rightarrow> 'a list" where
  "flatten a = map (item a) (indices (shape a))"

text \<open>Elementwise comparisons with a scalar: \<^verbatim>\<open>a == v\<close>, \<^verbatim>\<open>a > 0\<close>.\<close>

definition eq_scalar :: "'a ndarray \<Rightarrow> 'a \<Rightarrow> bool ndarray" where
  "eq_scalar a v = \<lparr>shape = shape a, item = (\<lambda>p. item a p = v)\<rparr>"

definition gt_scalar :: "nat ndarray \<Rightarrow> nat \<Rightarrow> bool ndarray" where
  "gt_scalar a v = \<lparr>shape = shape a, item = (\<lambda>p. item a p > v)\<rparr>"

text \<open>
  numpy broadcasting of two shapes of rank three: the sizes of each axis must be equal, or
  one of them must be 1. Otherwise the operation raises \<^verbatim>\<open>ValueError\<close>.
\<close>

definition broadcast_dim :: "nat \<Rightarrow> nat \<Rightarrow> nat option" where
  "broadcast_dim m n = (if m = n then Some m else if m = 1 then Some n
                        else if n = 1 then Some m else None)"

definition broadcast_shapes :: "shape \<Rightarrow> shape \<Rightarrow> shape option" where
  "broadcast_shapes s t = (case (s, t) of ((a, b, c), (a', b', c')) \<Rightarrow>
     (case (broadcast_dim a a', broadcast_dim b b', broadcast_dim c c') of
        (Some x, Some y, Some z) \<Rightarrow> Some (x, y, z)
      | _ \<Rightarrow> None))"

definition broadcast_to :: "shape \<Rightarrow> 'a ndarray \<Rightarrow> 'a ndarray" where
  "broadcast_to s a = (case shape a of (nx, ny, nz) \<Rightarrow>
     \<lparr>shape = s,
      item = (\<lambda>(i, j, k). item a (if nx = 1 then 0 else i, if ny = 1 then 0 else j,
                                   if nz = 1 then 0 else k))\<rparr>)"

text \<open>Elementwise conjunction of two boolean arrays: \<^verbatim>\<open>a & b\<close>.\<close>

definition logical_and :: "bool ndarray \<Rightarrow> bool ndarray \<Rightarrow> error + bool ndarray" where
  "logical_and a b = (case broadcast_shapes (shape a) (shape b) of
       None \<Rightarrow> Inl ValueError
     | Some s \<Rightarrow> Inr \<lparr>shape = s,
                      item = (\<lambda>p. item (broadcast_to s a) p \<and> item (broadcast_to s b) p)\<rparr>)"

text \<open>
  Indexing with a boolean mask, \<^verbatim>\<open>a[m]\<close>: the values of \<open>a\<close> at the positions where
  \<open>m\<close> holds, in C order. A mask of another shape raises \<^verbatim>\<open>IndexError\<close>.
\<close>

definition bool_index :: "'a ndarray \<Rightarrow> bool ndarray \<Rightarrow> error + 'a list" where
  "bool_index a m = (if shape m = shape a
     then Inr (map (item a) (filter (item m) (indices (shape a))))
     else Inl IndexError)"

text \<open>Assignment through a boolean mask, \<^verbatim>\<open>a[m] = v\<close>, returning the updated array.\<close>

definition bool_assign :: "'a ndarray \<Rightarrow> bool ndarray \<Rightarrow> 'a \<Rightarrow> error + 'a ndarray" where
  "bool_assign a m v = (if shape m = shape a
     then Inr \<lparr>shape = shape a, item = (\<lambda>p. if item m p then v else item a p)\<rparr>
     else Inl IndexError)"

text \<open>\<^verbatim>\<open>np.copy\<close>: a new array with the same contents.\<close>

definition np_copy :: "'a ndarray \<Rightarrow> 'a ndarray" where
  "np_copy a = \<lparr>shape = shape a, item = item a\<rparr>"

text \<open>\<^verbatim>\<open>np.unique\<close>: the sorted distinct values.\<close>

definition unique :: "nat list \<Rightarrow> nat list" where
  "unique xs = sort (remdups xs)"

section \<open>Connected-component labelling\<close>

text \<open>
  The structuring element \<^verbatim>\<open>np.ones(shape=(3, 3, 3))\<close>: two positions are neighbours when
  each coordinate differs by at most one (26-connectivity, and every position is its own
  neighbour through the centre of the element).
\<close>

definition near :: "nat \<Rightarrow> nat \<Rightarrow> bool" where
  "near a b \<longleftrightarrow> a \<le> b + 1 \<and> b \<le> a + 1"

definition adjacent :: "pos \<Rightarrow> pos \<Rightarrow> bool" where
  "adjacent p q = (case (p, q) of ((i, j, k), (i', j', k')) \<Rightarrow>
     near i i' \<and> near j j' \<and> near k k')"

text \<open>The foreground positions of a mask, in C order.\<close>

definition foreground :: "bool ndarray \<Rightarrow> pos list" where
  "foreground bmask = filter (item bmask) (indices (shape bmask))"

text \<open>
  Modelled from the spec: \<^verbatim>\<open>scipy.ndimage.label\<close> is library code outside the repository.
  Section 4.1 of the specification describes it as flood-fill connected-component labelling
  with 26-connectivity, identifiers assigned from 1 in a deterministic traversal order, the
  count being the number of components, and the empty mask giving count 0 and an all-zero map.
  The model scans the foreground in C order; each foreground voxel that has no identifier yet
  starts a new instance, which is flooded over everything reachable from it.
\<close>

definition expand :: "pos list \<Rightarrow> pos list \<Rightarrow> pos list" where
  "expand fgs S = filter (\<lambda>q. \<exists>p \<in> set S. adjacent p q) fgs"

definition flood :: "pos list \<Rightarrow> pos \<Rightarrow> pos list" where
  "flood fgs p = ((expand fgs) ^^ (length fgs)) [p]"

fun label_scan :: "pos list \<Rightarrow> pos list \<Rightarrow> (pos \<Rightarrow> nat) \<Rightarrow> nat \<Rightarrow> (pos \<Rightarrow> nat) \<times> nat" where
  "label_scan [] fgs m n = (m, n)"
| "label_scan (p # ps) fgs m n =
     (if m p = 0
      then label_scan ps fgs (\<lambda>q. if q \<in> set (flood fgs p) then Suc n else m q) (Suc n)
      else label_scan ps fgs m n)"

definition label :: "bool ndarray \<Rightarrow> nat ndarray \<times> nat" where
  "label bmask = (let fgs = foreground bmask;
                     (m, n) = label_scan fgs fgs (\<lambda>_. 0) 0
                 in (\<lparr>shape = shape bmask, item = m\<rparr>, n))"

section \<open>Lesion-level metrics of one case\<close>

text \<open>
  Lines 122 to 125 of \<^verbatim>\<open>compute_lesion_level_metrics\<close>: the predicted identifiers are
  moved behind the ground-truth ones. The loop reads the original instance map and writes
  into the copy.
\<close>

fun relabel_loop :: "nat list \<Rightarrow> nat ndarray \<Rightarrow> nat \<Rightarrow> nat ndarray \<Rightarrow> error + nat ndarray" where
  "relabel_loop [] predicted_lesions n_gt_lesions new_predicted_lesions =
     Inr new_predicted_lesions"
| "relabel_loop (pred_lesion_id # ids) predicted_lesions n_gt_lesions new_predicted_lesions =
     (case bool_assign new_predicted_lesions (eq_scalar predicted_lesions pred_lesion_id)
             (pred_lesion_id + n_gt_lesions) of
        Inl e \<Rightarrow> Inl e
      | Inr new' \<Rightarrow> relabel_loop ids predicted_lesions n_gt_lesions new')"

definition reconcile :: "nat ndarray \<Rightarrow> nat \<Rightarrow> nat \<Rightarrow> error + nat ndarray" where
  "reconcile predicted_lesions n_predicted_lesions n_gt_lesions =
     relabel_loop [1..<n_predicted_lesions + 1] predicted_lesions n_gt_lesions
       (np_copy predicted_lesions)"

text \<open>
  Lines 116 to 120: the instance map and the number of instances of one lesion class,
  \<^verbatim>\<open>label((vol == lesion_class).astype(int), structure=np.ones(shape=(3, 3, 3)))\<close>.
\<close>

definition instances :: "int ndarray \<Rightarrow> int \<Rightarrow> nat ndarray \<times> nat" where
  "instances vol lesion_class = label (eq_scalar vol lesion_class)"

text \<open>\<^verbatim>\<open>set(np.unique(a[m1 & m2]))\<close>, the expression of lines 128 to 131.\<close>

definition masked_ids :: "nat ndarray \<Rightarrow> bool ndarray \<Rightarrow> bool ndarray \<Rightarrow> error + nat set" where
  "masked_ids a m1 m2 = (case logical_and m1 m2 of
       Inl e \<Rightarrow> Inl e
     | Inr m \<Rightarrow> (case bool_index a m of
          Inl e \<Rightarrow> Inl e
        | Inr xs \<Rightarrow> Inr (set (unique xs))))"

text \<open>
  The local variables of \<^verbatim>\<open>compute_lesion_level_metrics\<close> after line 131: the two instance
  counts and the four sets of instance identifiers.
\<close>

record matching =
  n_gt_lesions :: nat
  n_predicted_lesions :: nat
  tp_gt :: "nat set"
  tp_pred :: "nat set"
  fp_set :: "nat set"
  fn_set :: "nat set"

definition lesion_matching :: "int ndarray \<Rightarrow> int ndarray \<Rightarrow> int \<Rightarrow> error + matching" where
  "lesion_matching labels preds lesion_class =
    (case instances labels lesion_class of (gt_lesions, n_gt) \<Rightarrow>
     case instances preds lesion_class of (predicted_lesions, n_pred) \<Rightarrow>
     case reconcile predicted_lesions n_pred n_gt of Inl e \<Rightarrow> Inl e
     | Inr new_predicted_lesions \<Rightarrow>
     case masked_ids gt_lesions (gt_scalar gt_lesions 0) (gt_scalar predicted_lesions 0) of
       Inl e \<Rightarrow> Inl e
     | Inr tpg \<Rightarrow>
     case masked_ids new_predicted_lesions (gt_scalar gt_lesions 0)
            (gt_scalar new_predicted_lesions 0) of
       Inl e \<Rightarrow> Inl e
     | Inr tpp \<Rightarrow>
     case masked_ids new_predicted_lesions (eq_scalar gt_lesions 0)
            (gt_scalar new_predicted_lesions 0) of
       Inl e \<Rightarrow> Inl e
     | Inr fp_raw \<Rightarrow>
     case masked_ids gt_lesions (gt_scalar gt_lesions 0) (eq_scalar new_predicted_lesions 0) of
       Inl e \<Rightarrow> Inl e
     | Inr fn_raw \<Rightarrow>
       Inr \<lparr>n_gt_lesions = n_gt, n_predicted_lesions = n_pred, tp_gt = tpg, tp_pred = tpp,
            fp_set = fp_raw - tpp, fn_set = fn_raw - tpg\<rparr>)"

text \<open>
  Lines 133 to 140: the counts, the two assertions and the returned tuple
  \<open>(n_gt_lesions, n_predicted_lesions, tp, fp, fn)\<close>.
\<close>

definition compute_lesion_level_metrics ::
  "int ndarray \<Rightarrow> int ndarray \<Rightarrow> int \<Rightarrow> error + (nat \<times> nat \<times> nat \<times> nat \<times> nat)" where
  "compute_lesion_level_metrics labels preds lesion_class =
    (case lesion_matching labels preds lesion_class of Inl e \<Rightarrow> Inl e
     | Inr m \<Rightarrow>
       (let tp = card (tp_gt m); fp = card (fp_set m); fn = card (fn_set m)
        in if card (tp_pred m) + fp \<noteq> n_predicted_lesions m then Inl AssertionError
           else if card (tp_gt m) + fn \<noteq> n_gt_lesions m then Inl AssertionError
           else Inr (n_gt_lesions m, n_predicted_lesions m, tp, fp, fn)))"

section \<open>Lesion-level metrics of a cohort\<close>

text \<open>
  A Python float is either a number or the not-a-number value \<^verbatim>\<open>np.NAN\<close>. The quotient of
  two Python integers is modelled by the exact quotient.
\<close>

datatype pyfloat = NaN | Float real

definition py_truediv :: "nat \<Rightarrow> nat \<Rightarrow> error + real" where
  "py_truediv a b = (if b = 0 then Inl ZeroDivisionError else Inr (real a / real b))"

text \<open>Lines 167 to 170: the F1 score, with the division by zero caught.\<close>

definition f1_score :: "nat \<Rightarrow> nat \<Rightarrow> nat \<Rightarrow> error + pyfloat" where
  "f1_score tp fp fn = (case py_truediv (2 * tp) (2 * tp + fp + fn) of
       Inr x \<Rightarrow> Inr (Float x)
     | Inl ZeroDivisionError \<Rightarrow> Inr NaN
     | Inl e \<Rightarrow> Inl e)"

text \<open>
  One record of the list that becomes the data frame; \<open>lesion_str\<close> is the word that the
  column names carry (\<^verbatim>\<open>n_ref_new_lesions\<close>, \<^verbatim>\<open>basal_lesion_tp\<close>, ...).
\<close>

record lesion_row =
  case_id :: string
  lesion_str :: string
  n_ref_lesions :: nat
  n_pred_lesions :: nat
  lesion_tp :: nat
  lesion_fp :: nat
  lesion_fn :: nat
  lesion_F1 :: pyfloat

text \<open>
  The loop of \<^verbatim>\<open>compute_all_lesion_level_metrics\<close> (lines 161 to 180). A missing key of a
  dict raises \<^verbatim>\<open>KeyError\<close>; nothing in the loop catches the exceptions of the per-case
  computation.
\<close>

fun compute_all_loop ::
  "string list \<Rightarrow> (string \<rightharpoonup> int ndarray) \<Rightarrow> (string \<rightharpoonup> int ndarray) \<Rightarrow> int \<Rightarrow>
   lesion_row list \<Rightarrow> error + lesion_row list" where
  "compute_all_loop [] labels_dict preds_dict lesion_class lesion_level_metrics =
     Inr lesion_level_metrics"
| "compute_all_loop (cid # ids) labels_dict preds_dict lesion_class lesion_level_metrics =
     (case labels_dict cid of None \<Rightarrow> Inl KeyError | Some labels \<Rightarrow>
      case preds_dict cid of None \<Rightarrow> Inl KeyError | Some preds \<Rightarrow>
      case compute_lesion_level_metrics labels preds lesion_class of Inl e \<Rightarrow> Inl e
      | Inr (n_gt, n_pred, tp, fp, fn) \<Rightarrow>
      case f1_score tp fp fn of Inl e \<Rightarrow> Inl e
      | Inr f1 \<Rightarrow>
        compute_all_loop ids labels_dict preds_dict lesion_class
          (lesion_level_metrics @
            [\<lparr>case_id = cid,
              lesion_str = (if lesion_class = 2 then ''new'' else ''basal''),
              n_ref_lesions = n_gt, n_pred_lesions = n_pred,
              lesion_tp = tp, lesion_fp = fp, lesion_fn = fn, lesion_F1 = f1\<rparr>]))"

definition compute_all_lesion_level_metrics ::
  "string list \<Rightarrow> (string \<rightharpoonup> int ndarray) \<Rightarrow> (string \<rightharpoonup> int ndarray) \<Rightarrow> int \<Rightarrow>
   error + lesion_row list" where
  "compute_all_lesion_level_metrics ids labels_dict preds_dict lesion_class =
     compute_all_loop ids labels_dict preds_dict lesion_class []"

text \<open>
  \<^verbatim>\<open>get_all_preds_and_labels\<close> (lines 85 to 101). Reading the two files of a case is
  input and output outside the model: the reader is a parameter, which returns the decoded
  label and prediction volumes of a case or fails.
\<close>

fun get_all_loop ::
  "(string \<Rightarrow> error + int ndarray \<times> int ndarray) \<Rightarrow> string list \<Rightarrow>
   (string \<rightharpoonup> int ndarray) \<Rightarrow> (string \<rightharpoonup> int ndarray) \<Rightarrow>
   error + (string \<rightharpoonup> int ndarray) \<times> (string \<rightharpoonup> int ndarray)" where
  "get_all_loop read_labels_and_preds [] labels preds = Inr (labels, preds)"
| "get_all_loop read_labels_and_preds (cid # ids) labels preds =
     (case read_labels_and_preds cid of Inl e \<Rightarrow> Inl e
      | Inr (sample_labels, sample_predictions) \<Rightarrow>
          get_all_loop read_labels_and_preds ids
            (labels(cid \<mapsto> sample_labels)) (preds(cid \<mapsto> sample_predictions)))"

definition get_all_preds_and_labels ::
  "(string \<Rightarrow> error + int ndarray \<times> int ndarray) \<Rightarrow> string list \<Rightarrow>
   error + (string \<rightharpoonup> int ndarray) \<times> (string \<rightharpoonup> int ndarray)" where
  "get_all_preds_and_labels read_labels_and_preds ids =
     get_all_loop read_labels_and_preds ids Map.empty Map.empty"

text \<open>
  A record of the result list belongs to its case: the dicts hold the volumes of the case,
  the counts are those returned for them and the score is computed from the counts.
\<close>

definition row_of ::
  "(string \<rightharpoonup> int ndarray) \<Rightarrow> (string \<rightharpoonup> int ndarray) \<Rightarrow> int \<Rightarrow> lesion_row \<Rightarrow> bool" where
  "row_of labels_dict preds_dict c r \<longleftrightarrow>
     (\<exists>labels preds. labels_dict (case_id r) = Some labels \<and> preds_dict (case_id r) = Some preds \<and>
        compute_lesion_level_metrics labels preds c =
          Inr (n_ref_lesions r, n_pred_lesions r, lesion_tp r, lesion_fp r, lesion_fn r) \<and>
        f1_score (lesion_tp r) (lesion_fp r) (lesion_fn r) = Inr (lesion_F1 r))"

text \<open>
  Tables. A data frame made by \<^verbatim>\<open>pd.DataFrame.from_records\<close> from a list of dicts that
  all have the key \<^verbatim>\<open>case_id\<close> is modelled by its rows, each a case identifier with the
  remaining columns; an empty list gives a frame without any column.
\<close>

record 'a frame =
  has_case_id :: bool
  frame_rows :: "(string \<times> 'a) list"

definition from_records :: "(string \<times> 'a) list \<Rightarrow> 'a frame" where
  "from_records rs = \<lparr>has_case_id = (rs \<noteq> []), frame_rows = rs\<rparr>"

definition lesion_records :: "lesion_row list \<Rightarrow> (string \<times> lesion_row) list" where
  "lesion_records rs = map (\<lambda>r. (case_id r, r)) rs"

text \<open>
  \<^verbatim>\<open>left.merge(right, on='case_id')\<close> as lines 237, 238 and 258 call it: no \<^verbatim>\<open>how\<close> and no
  \<^verbatim>\<open>validate\<close> argument is given, so pandas joins with its default \<^verbatim>\<open>how='inner'\<close>: the
  result has a row for every pair of a left and a right row with the same case identifier,
  in the order of the left rows. \<^verbatim>\<open>KeyError\<close> is raised only when a frame has no
  \<^verbatim>\<open>case_id\<close> column.
\<close>

definition inner_join :: "(string \<times> 'a) list \<Rightarrow> (string \<times> 'b) list \<Rightarrow> (string \<times> 'a \<times> 'b) list" where
  "inner_join left right =
     concat (map (\<lambda>(k, a). map (\<lambda>(k', b). (k, (a, b))) (filter (\<lambda>(k', b). k' = k) right)) left)"

definition merge_on_case_id :: "'a frame \<Rightarrow> 'b frame \<Rightarrow> error + ('a \<times> 'b) frame" where
  "merge_on_case_id left right =
     (if \<not> has_case_id left \<or> \<not> has_case_id right then Inl KeyError
      else Inr \<lparr>has_case_id = True,
                frame_rows = inner_join (frame_rows left) (frame_rows right)\<rparr>)"

text \<open>
  Lines 237 and 238: the table of voxel metrics is merged with the table of the new lesions
  and then with the table of the basal lesions.
\<close>

definition cohort_table ::
  "(string \<times> 'v) list \<Rightarrow> lesion_row list \<Rightarrow> lesion_row list \<Rightarrow>
   error + (('v \<times> lesion_row) \<times> lesion_row) frame" where
  "cohort_table voxel_records n_lesion_wise_res b_lesion_wise_res =
     (case merge_on_case_id (from_records voxel_records)
             (from_records (lesion_records n_lesion_wise_res)) of
        Inl e \<Rightarrow> Inl e
      | Inr test_results_df \<Rightarrow>
          merge_on_case_id test_results_df (from_records (lesion_records b_lesion_wise_res)))"

section \<open>Example volumes\<close>

text \<open>\<^verbatim>\<open>np.array(xs).reshape(s)\<close>: a volume given by its values in C order.\<close>

definition reshape :: "'a list \<Rightarrow> shape \<Rightarrow> 'a ndarray" where
  "reshape xs s = (case s of (nx, ny, nz) \<Rightarrow>
     \<lparr>shape = s, item = (\<lambda>(i, j, k). xs ! ((i * ny + j) * nz + k))\<rparr>)"

text \<open>
  Scenario D of the specification: one predicted lesion of class 2 lies over two separate
  ground-truth lesions of class 2.
\<close>

definition exD_labels :: "int ndarray" where
  "exD_labels = reshape [2, 0, 2, 0, 0] (1, 1, 5)"

definition exD_preds :: "int ndarray" where
  "exD_preds = reshape [2, 2, 2, 0, 1] (1, 1, 5)"

text \<open>
  Scenario E: the second predicted lesion lies entirely on ground-truth background.
\<close>

definition exE_labels :: "int ndarray" where
  "exE_labels = reshape [2, 0, 0, 0, 0] (1, 1, 5)"

definition exE_preds :: "int ndarray" where
  "exE_preds = reshape [2, 0, 0, 2, 2] (1, 1, 5)"

text \<open>
  Scenario C: one ground-truth lesion of class 1 is covered by two separate predicted
  fragments.
\<close>

definition exC_labels :: "int ndarray" where
  "exC_labels = reshape [1, 1, 1, 0, 0] (1, 1, 5)"

definition exC_preds :: "int ndarray" where
  "exC_preds = reshape [1, 0, 1, 0, 0] (1, 1, 5)"

text \<open>
  A second case with one basal lesion and no new lesion, a prediction of another shape for
  it, and the dicts and the reader of a cohort of two cases.
\<close>

definition ex2_labels :: "int ndarray" where
  "ex2_labels = reshape [0, 1, 0, 0, 0] (1, 1, 5)"

definition ex2_preds :: "int ndarray" where
  "ex2_preds = reshape [0, 1, 1, 0, 0] (1, 1, 5)"

definition exM_preds :: "int ndarray" where
  "exM_preds = reshape [0, 1, 1, 0] (1, 1, 4)"

definition ex_labels_dict :: "string \<rightharpoonup> int ndarray" where
  "ex_labels_dict = [''c1'' \<mapsto> exD_labels, ''c2'' \<mapsto> ex2_labels]"

definition ex_preds_dict :: "string \<rightharpoonup> int ndarray" where
  "ex_preds_dict = [''c1'' \<mapsto> exD_preds, ''c2'' \<mapsto> ex2_preds]"

definition exM_preds_dict :: "string \<rightharpoonup> int ndarray" where
  "exM_preds_dict = [''c1'' \<mapsto> exD_preds, ''c2'' \<mapsto> exM_preds]"

definition ex_reader :: "string \<Rightarrow> error + int ndarray \<times> int ndarray" where
  "ex_reader cid = (if cid = ''c1'' then Inr (exD_labels, exD_preds)
                    else if cid = ''c2'' then Inr (ex2_labels, ex2_preds)
                    else Inl OSError)"

text \<open>An instance map with two instances, as the labelling returns it.\<close>

definition ex_instances :: "nat ndarray" where
  "ex_instances = reshape [1, 0, 2, 2] (1, 1, 4)"

section \<open>Connectivity of the foreground\<close>

text \<open>
  The adjacency graph on a list of foreground positions, and the invariant of the scan of
  the labelling: identifiers are at most \<open>n\<close>, only foreground positions carry one, every
  identifier from 1 to \<open>n\<close> is used, and two positions carry the same identifier exactly
  when a chain of adjacent foreground positions joins them.
\<close>

definition edges :: "pos list \<Rightarrow> (pos \<times> pos) set" where
  "edges fgs = {(p, q). p \<in> set fgs \<and> q \<in> set fgs \<and> adjacent p q}"

definition scan_inv :: "pos list \<Rightarrow> (pos \<Rightarrow> nat) \<Rightarrow> nat \<Rightarrow> bool" where
  "scan_inv fgs m n \<longleftrightarrow>
     (\<forall>q. m q \<le> n) \<and> (\<forall>q. m q \<noteq> 0 \<longrightarrow> q \<in> set fgs) \<and>
     (\<forall>k. 1 \<le> k \<and> k \<le> n \<longrightarrow> (\<exists>q. m q = k)) \<and>
     (\<forall>q r. m q \<noteq> 0 \<longrightarrow> (m r = m q \<longleftrightarrow> (q, r) \<in> (edges fgs)\<^sup>*))"

section \<open>The flood fill reaches exactly the connected component\<close>

lemma adjacent_refl: "adjacent p p"
  by (cases p) (simp add: adjacent_def near_def)

lemma adjacent_sym: "adjacent p q \<Longrightarrow> adjacent q p"
  by (cases p; cases q) (auto simp: adjacent_def near_def)

lemma edges_sym: "sym (edges fgs)"
  by (auto simp: sym_def edges_def adjacent_sym)

lemma edges_rtrancl_in: "(p, q) \<in> (edges fgs)\<^sup>* \<Longrightarrow> p \<in> set fgs \<Longrightarrow> q \<in> set fgs"
  by (induction rule: rtrancl_induct) (auto simp: edges_def)

lemma edges_rtrancl_sym: "(p, q) \<in> (edges fgs)\<^sup>* \<Longrightarrow> (q, p) \<in> (edges fgs)\<^sup>*"
  using edges_sym sym_rtrancl by (metis symD)

lemma set_expand: "set (expand fgs S) = {q \<in> set fgs. \<exists>r \<in> set S. adjacent r q}"
  by (auto simp: expand_def)

lemma iter_sub:
  assumes "p \<in> set fgs"
  shows "set (((expand fgs) ^^ k) [p]) \<subseteq> (edges fgs)\<^sup>* `` {p}"
proof (induction k)
  case 0
  show ?case by simp
next
  case (Suc k)
  show ?case
  proof
    fix q assume "q \<in> set ((expand fgs ^^ Suc k) [p])"
    then obtain r where r: "r \<in> set ((expand fgs ^^ k) [p])" and q: "q \<in> set fgs" "adjacent r q"
      by (auto simp: set_expand)
    from r Suc have pr: "(p, r) \<in> (edges fgs)\<^sup>*" by auto
    then have "r \<in> set fgs" using assms by (rule edges_rtrancl_in)
    with q have "(r, q) \<in> edges fgs" by (simp add: edges_def)
    with pr show "q \<in> (edges fgs)\<^sup>* `` {p}" by auto
  qed
qed

lemma iter_mono:
  assumes "p \<in> set fgs"
  shows "set (((expand fgs) ^^ k) [p]) \<subseteq> set (((expand fgs) ^^ Suc k) [p])"
proof
  fix q assume q: "q \<in> set ((expand fgs ^^ k) [p])"
  with iter_sub [OF assms, of k] have "(p, q) \<in> (edges fgs)\<^sup>*" by auto
  then have "q \<in> set fgs" using assms by (rule edges_rtrancl_in)
  with q show "q \<in> set ((expand fgs ^^ Suc k) [p])"
    by (auto simp: set_expand intro: adjacent_refl)
qed

lemma iter_seed:
  assumes "p \<in> set fgs"
  shows "p \<in> set (((expand fgs) ^^ k) [p])"
proof (induction k)
  case 0 show ?case by simp
next
  case (Suc k) with iter_mono [OF assms, of k] show ?case by blast
qed

lemma iter_fix:
  assumes p: "p \<in> set fgs"
    and fx: "set (((expand fgs) ^^ Suc k) [p]) = set (((expand fgs) ^^ k) [p])"
  shows "(edges fgs)\<^sup>* `` {p} \<subseteq> set (((expand fgs) ^^ k) [p])"
proof
  fix q assume "q \<in> (edges fgs)\<^sup>* `` {p}"
  then have "(p, q) \<in> (edges fgs)\<^sup>*" by simp
  then show "q \<in> set ((expand fgs ^^ k) [p])"
  proof (induction rule: rtrancl_induct)
    case base
    show ?case by (rule iter_seed [OF p])
  next
    case (step y z)
    then have "z \<in> set fgs" "adjacent y z" by (auto simp: edges_def)
    with step.IH have "z \<in> set ((expand fgs ^^ Suc k) [p])"
      by (auto simp: set_expand)
    with fx show ?case by simp
  qed
qed

lemma iter_card:
  assumes p: "p \<in> set fgs"
  shows "set (((expand fgs) ^^ k) [p]) = (edges fgs)\<^sup>* `` {p}
         \<or> k < card (set (((expand fgs) ^^ k) [p]))"
proof (induction k)
  case 0
  show ?case by simp
next
  case (Suc k)
  let ?S = "set ((expand fgs ^^ k) [p])" and ?S' = "set ((expand fgs ^^ Suc k) [p])"
  from Suc show ?case
  proof
    assume "?S = (edges fgs)\<^sup>* `` {p}"
    with iter_mono [OF p, of k] iter_sub [OF p, of "Suc k"] show ?thesis by blast
  next
    assume c: "k < card ?S"
    show ?thesis
    proof (cases "?S' = ?S")
      case True
      from iter_fix [OF p True] iter_sub [OF p, of k] True show ?thesis by auto
    next
      case False
      with iter_mono [OF p, of k] have "?S \<subset> ?S'" by blast
      then have "card ?S < card ?S'" by (intro psubset_card_mono) simp_all
      with c show ?thesis by linarith
    qed
  qed
qed

lemma set_flood:
  assumes p: "p \<in> set fgs"
  shows "set (flood fgs p) = (edges fgs)\<^sup>* `` {p}"
proof -
  let ?S = "set ((expand fgs ^^ length fgs) [p])"
  have "?S \<subseteq> set fgs"
    using iter_sub [OF p, of "length fgs"] edges_rtrancl_in [OF _ p] by blast
  then have "card ?S \<le> card (set fgs)" by (intro card_mono) simp_all
  also have "\<dots> \<le> length fgs" by (rule card_length)
  finally have "\<not> length fgs < card ?S" by simp
  with iter_card [OF p, of "length fgs"] show ?thesis by (simp add: flood_def)
qed

section \<open>The labelling\<close>

lemma scan_inv_le: "scan_inv fgs m n \<Longrightarrow> m q \<le> n"
  unfolding scan_inv_def by blast

lemma scan_inv_fg: "scan_inv fgs m n \<Longrightarrow> m q \<noteq> 0 \<Longrightarrow> q \<in> set fgs"
  unfolding scan_inv_def by blast

lemma scan_inv_onto: "scan_inv fgs m n \<Longrightarrow> 1 \<le> k \<Longrightarrow> k \<le> n \<Longrightarrow> \<exists>q. m q = k"
  unfolding scan_inv_def by blast

lemma scan_inv_conn:
  "scan_inv fgs m n \<Longrightarrow> m q \<noteq> 0 \<Longrightarrow> m r = m q \<longleftrightarrow> (q, r) \<in> (edges fgs)\<^sup>*"
  unfolding scan_inv_def by blast

lemma scan_inv_init: "scan_inv fgs (\<lambda>_. 0) 0"
  by (simp add: scan_inv_def)

lemma scan_inv_step:
  assumes inv: "scan_inv fgs m n" and p: "p \<in> set fgs" and mp: "m p = 0"
  shows "scan_inv fgs (\<lambda>q. if q \<in> set (flood fgs p) then Suc n else m q) (Suc n)"
proof -
  let ?E = "(edges fgs)\<^sup>*"
  let ?m' = "\<lambda>q. if (p, q) \<in> ?E then Suc n else m q"
  note a = scan_inv_le [OF inv] and b = scan_inv_fg [OF inv]
    and c = scan_inv_onto [OF inv] and d = scan_inv_conn [OF inv]
  have fresh: "m q = 0" if "(p, q) \<in> ?E" for q
  proof (rule ccontr)
    assume nz: "m q \<noteq> 0"
    from that have "(q, p) \<in> ?E" by (rule edges_rtrancl_sym)
    with d [OF nz, of p] nz mp show False by simp
  qed
  have a': "\<forall>q. ?m' q \<le> Suc n" using a by (simp add: le_SucI)
  have b': "\<forall>q. ?m' q \<noteq> 0 \<longrightarrow> q \<in> set fgs"
    using b edges_rtrancl_in [OF _ p] by auto
  have c': "\<forall>k. 1 \<le> k \<and> k \<le> Suc n \<longrightarrow> (\<exists>q. ?m' q = k)"
  proof (intro allI impI)
    fix k assume k: "1 \<le> k \<and> k \<le> Suc n"
    show "\<exists>q. ?m' q = k"
    proof (cases "k = Suc n")
      case True
      then have "?m' p = k" by simp
      then show ?thesis ..
    next
      case False
      with k c [of k] obtain q where q: "m q = k" by auto
      with k fresh [of q] have "(p, q) \<notin> ?E" by auto
      with q have "?m' q = k" by simp
      then show ?thesis ..
    qed
  qed
  have d': "\<forall>q r. ?m' q \<noteq> 0 \<longrightarrow> (?m' r = ?m' q \<longleftrightarrow> (q, r) \<in> ?E)"
  proof (intro allI impI)
    fix q r assume nz: "?m' q \<noteq> 0"
    show "?m' r = ?m' q \<longleftrightarrow> (q, r) \<in> ?E"
    proof (cases "(p, q) \<in> ?E")
      case True
      then have qp: "(q, p) \<in> ?E" by (rule edges_rtrancl_sym)
      have "(p, r) \<in> ?E \<longleftrightarrow> (q, r) \<in> ?E"
        using True qp by (meson rtrancl_trans)
      moreover have "m r \<noteq> Suc n" using a [of r] by simp
      ultimately show ?thesis using True by simp
    next
      case False
      with nz have mq: "m q \<noteq> 0" by simp
      have "m q \<noteq> Suc n" using a [of q] by simp
      show ?thesis
      proof (cases "(p, r) \<in> ?E")
        case True
        have "(q, r) \<notin> ?E"
        proof
          assume "(q, r) \<in> ?E"
          with d [OF mq, of r] mq fresh [OF True] show False by simp
        qed
        with True False \<open>m q \<noteq> Suc n\<close> show ?thesis by auto
      next
        case pr: False
        with False d [OF mq, of r] show ?thesis by simp
      qed
    qed
  qed
  have eq: "(\<lambda>q. if q \<in> set (flood fgs p) then Suc n else m q) = ?m'"
    by (simp add: set_flood [OF p])
  show ?thesis unfolding eq scan_inv_def
    by (intro conjI) (rule a', rule b', rule c', rule d')
qed

lemma label_scan_inv:
  assumes "scan_inv fgs m n" and "set ps \<subseteq> set fgs" and "label_scan ps fgs m n = (m', n')"
  shows "scan_inv fgs m' n' \<and> (\<forall>q. m q \<noteq> 0 \<longrightarrow> m' q \<noteq> 0) \<and> (\<forall>q \<in> set ps. m' q \<noteq> 0)"
  using assms
proof (induction ps arbitrary: m n)
  case Nil
  then show ?case by simp
next
  case (Cons p ps)
  show ?case
  proof (cases "m p = 0")
    case True
    let ?m1 = "\<lambda>q. if q \<in> set (flood fgs p) then Suc n else m q"
    from Cons.prems have p: "p \<in> set fgs" and ps: "set ps \<subseteq> set fgs" by auto
    have inv1: "scan_inv fgs ?m1 (Suc n)"
      by (rule scan_inv_step [OF Cons.prems(1) p True])
    from Cons.prems(3) True have run: "label_scan ps fgs ?m1 (Suc n) = (m', n')" by simp
    from Cons.IH [OF inv1 ps run]
    have r: "scan_inv fgs m' n'" "\<forall>q. ?m1 q \<noteq> 0 \<longrightarrow> m' q \<noteq> 0" "\<forall>q \<in> set ps. m' q \<noteq> 0"
      by auto
    have "p \<in> set (flood fgs p)" by (simp add: set_flood [OF p])
    then have "?m1 p \<noteq> 0" by simp
    with r(2) have "m' p \<noteq> 0" by blast
    moreover have "\<forall>q. m q \<noteq> 0 \<longrightarrow> m' q \<noteq> 0"
    proof (intro allI impI)
      fix q assume "m q \<noteq> 0"
      then have "?m1 q \<noteq> 0" by simp
      with r(2) show "m' q \<noteq> 0" by blast
    qed
    ultimately show ?thesis using r by simp
  next
    case False
    from Cons.prems have ps: "set ps \<subseteq> set fgs" by auto
    from Cons.prems(3) False have run: "label_scan ps fgs m n = (m', n')" by simp
    from Cons.IH [OF Cons.prems(1) ps run]
    have r: "scan_inv fgs m' n'" "\<forall>q. m q \<noteq> 0 \<longrightarrow> m' q \<noteq> 0" "\<forall>q \<in> set ps. m' q \<noteq> 0"
      by blast+
    from r(2) False have "m' p \<noteq> 0" by blast
    with r show ?thesis by simp
  qed
qed

lemma label_contract:
  assumes "label bmask = (lm, n)"
  shows "shape lm = shape bmask"
    and "scan_inv (foreground bmask) (item lm) n"
    and "\<And>q. item lm q \<noteq> 0 \<longleftrightarrow> q \<in> set (foreground bmask)"
proof -
  obtain m' n' where run: "label_scan (foreground bmask) (foreground bmask) (\<lambda>_. 0) 0 = (m', n')"
    by (cases "label_scan (foreground bmask) (foreground bmask) (\<lambda>_. 0) 0") auto
  with assms have lm: "lm = \<lparr>shape = shape bmask, item = m'\<rparr>" and n: "n = n'"
    by (auto simp: label_def Let_def)
  from label_scan_inv [OF scan_inv_init _ run]
  have r: "scan_inv (foreground bmask) m' n'" "\<forall>q \<in> set (foreground bmask). m' q \<noteq> 0"
    by auto
  show "shape lm = shape bmask" by (simp add: lm)
  show "scan_inv (foreground bmask) (item lm) n" using r(1) by (simp add: lm n)
  show "item lm q \<noteq> 0 \<longleftrightarrow> q \<in> set (foreground bmask)" for q
    using r(2) scan_inv_fg [OF r(1), of q] by (auto simp: lm)
qed

section \<open>Array operations\<close>

lemma set_indices: "set (indices (nx, ny, nz)) = {(i, j, k). i < nx \<and> j < ny \<and> k < nz}"
  by (auto simp: indices_def image_iff)

lemma in_indices: "(i, j, k) \<in> set (indices (nx, ny, nz)) \<longleftrightarrow> i < nx \<and> j < ny \<and> k < nz"
  by (simp add: set_indices)

lemma broadcast_shapes_same: "broadcast_shapes s s = Some s"
  by (cases s) (simp add: broadcast_shapes_def broadcast_dim_def)

lemma broadcast_to_item:
  assumes "p \<in> set (indices (shape a))"
  shows "item (broadcast_to (shape a) a) p = item a p"
proof -
  obtain nx ny nz where s: "shape a = (nx, ny, nz)" by (cases "shape a") auto
  obtain i j k where p: "p = (i, j, k)" by (cases p) auto
  from assms have "i < nx" "j < ny" "k < nz" by (simp_all add: s p in_indices)
  then show ?thesis by (auto simp: broadcast_to_def s p)
qed

lemma set_unique: "set (unique xs) = set xs"
  by (simp add: unique_def)

lemma masked_ids_same:
  assumes "shape m1 = shape a" and "shape m2 = shape a"
  shows "masked_ids a m1 m2 =
         Inr (item a ` {p \<in> set (indices (shape a)). item m1 p \<and> item m2 p})"
proof -
  let ?s = "shape a"
  let ?m = "\<lparr>shape = ?s, item = (\<lambda>p. item (broadcast_to ?s m1) p \<and> item (broadcast_to ?s m2) p)\<rparr>"
  have la: "logical_and m1 m2 = Inr ?m"
    by (simp add: logical_and_def assms broadcast_shapes_same)
  have "filter (item ?m) (indices ?s) = filter (\<lambda>p. item m1 p \<and> item m2 p) (indices ?s)"
    using broadcast_to_item [of _ m1] broadcast_to_item [of _ m2]
    by (intro filter_cong) (simp_all add: assms)
  then have "bool_index a ?m = Inr (map (item a) (filter (\<lambda>p. item m1 p \<and> item m2 p) (indices ?s)))"
    by (simp add: bool_index_def)
  with la show ?thesis
    by (simp add: masked_ids_def set_unique image_def)
qed

lemma relabel_loop_eq:
  assumes "shape new = shape predicted"
  shows "relabel_loop ids predicted n_gt new =
         Inr \<lparr>shape = shape predicted,
              item = (\<lambda>p. if item predicted p \<in> set ids then item predicted p + n_gt
                          else item new p)\<rparr>"
  using assms
proof (induction ids arbitrary: new)
  case Nil
  then show ?case by simp
next
  case (Cons i ids)
  let ?new' = "\<lparr>shape = shape new, item = (\<lambda>p. if item predicted p = i then i + n_gt else item new p)\<rparr>"
  have step: "bool_assign new (eq_scalar predicted i) (i + n_gt) = Inr ?new'"
    by (simp add: bool_assign_def eq_scalar_def Cons.prems)
  have "shape ?new' = shape predicted" by (simp add: Cons.prems)
  from Cons.IH [OF this] step show ?case by (auto simp: fun_eq_iff)
qed

lemma reconcile_eq:
  "reconcile predicted n_pred n_gt =
     Inr \<lparr>shape = shape predicted,
          item = (\<lambda>p. if 1 \<le> item predicted p \<and> item predicted p \<le> n_pred
                      then item predicted p + n_gt else item predicted p)\<rparr>"
proof -
  have "shape (np_copy predicted) = shape predicted" by (simp add: np_copy_def)
  from relabel_loop_eq [OF this] show ?thesis
    by (auto simp: reconcile_def np_copy_def fun_eq_iff)
qed

lemma foreground_iff:
  "q \<in> set (foreground bmask) \<longleftrightarrow> q \<in> set (indices (shape bmask)) \<and> item bmask q"
  by (simp add: foreground_def)

lemma label_shape: "label bmask = (lm, n) \<Longrightarrow> shape lm = shape bmask"
  by (rule label_contract(1))

lemma label_nonzero:
  "label bmask = (lm, n) \<Longrightarrow>
   item lm q \<noteq> 0 \<longleftrightarrow> q \<in> set (indices (shape bmask)) \<and> item bmask q"
  using label_contract(3) [of bmask lm n q] by (simp add: foreground_iff)

lemma label_le: "label bmask = (lm, n) \<Longrightarrow> item lm q \<le> n"
  using label_contract(2) scan_inv_le by blast

lemma label_ids:
  assumes "label bmask = (lm, n)"
  shows "item lm ` {p \<in> set (indices (shape lm)). item lm p > 0} = {1..n}"
proof (intro set_eqI iffI)
  fix k assume "k \<in> item lm ` {p \<in> set (indices (shape lm)). item lm p > 0}"
  then show "k \<in> {1..n}" using label_le [OF assms] by auto
next
  fix k assume k: "k \<in> {1..n}"
  with scan_inv_onto [OF label_contract(2) [OF assms], of k]
  obtain q where q: "item lm q = k" by auto
  with k have "item lm q \<noteq> 0" by simp
  with label_nonzero [OF assms, of q] have "q \<in> set (indices (shape lm))"
    by (simp add: label_shape [OF assms])
  with q k show "k \<in> item lm ` {p \<in> set (indices (shape lm)). item lm p > 0}"
    by auto
qed

text \<open>The sets of the matching, for two volumes of one shape.\<close>

lemma lesion_matching_same_shape:
  assumes sh: "shape labels = shape preds"
    and G: "label (eq_scalar labels c) = (G, n_gt)"
    and P: "label (eq_scalar preds c) = (P, n_pred)"
  shows "lesion_matching labels preds c = Inr
    \<lparr>n_gt_lesions = n_gt, n_predicted_lesions = n_pred,
     tp_gt = item G ` {p \<in> set (indices (shape labels)). item G p > 0 \<and> item P p > 0},
     tp_pred = (\<lambda>p. item P p + n_gt) ` {p \<in> set (indices (shape labels)). item G p > 0 \<and> item P p > 0},
     fp_set = (\<lambda>p. item P p + n_gt) ` {p \<in> set (indices (shape labels)). item G p = 0 \<and> item P p > 0}
              - (\<lambda>p. item P p + n_gt) ` {p \<in> set (indices (shape labels)). item G p > 0 \<and> item P p > 0},
     fn_set = item G ` {p \<in> set (indices (shape labels)). item G p > 0 \<and> item P p = 0}
              - item G ` {p \<in> set (indices (shape labels)). item G p > 0 \<and> item P p > 0}\<rparr>"
proof -
  let ?I = "set (indices (shape labels))"
  define N :: "nat ndarray" where
    "N = \<lparr>shape = shape P, item = (\<lambda>p. if item P p = 0 then 0 else item P p + n_gt)\<rparr>"
  have sG: "shape G = shape labels" using label_shape [OF G] by (simp add: eq_scalar_def)
  have sP: "shape P = shape labels" using label_shape [OF P] by (simp add: eq_scalar_def sh)
  have sN: "shape N = shape labels" by (simp add: N_def sP)
  have N: "item N p = (if item P p = 0 then 0 else item P p + n_gt)" for p
    by (simp add: N_def)
  have rec: "reconcile P n_pred n_gt = Inr N"
    unfolding reconcile_eq N_def using label_le [OF P] by (auto simp: fun_eq_iff)
  have m1: "masked_ids G (gt_scalar G 0) (gt_scalar P 0) =
            Inr (item G ` {p \<in> ?I. item G p > 0 \<and> item P p > 0})"
    by (subst masked_ids_same) (simp_all add: gt_scalar_def sG sP)
  have "masked_ids N (gt_scalar G 0) (gt_scalar N 0) =
            Inr (item N ` {p \<in> ?I. item G p > 0 \<and> item N p > 0})"
    by (subst masked_ids_same) (simp_all add: gt_scalar_def sG sN)
  moreover have "item N ` {p \<in> ?I. item G p > 0 \<and> item N p > 0} =
      (\<lambda>p. item P p + n_gt) ` {p \<in> ?I. item G p > 0 \<and> item P p > 0}"
    by (rule image_cong) (auto simp: N)
  ultimately have m2: "masked_ids N (gt_scalar G 0) (gt_scalar N 0) =
      Inr ((\<lambda>p. item P p + n_gt) ` {p \<in> ?I. item G p > 0 \<and> item P p > 0})"
    by simp
  have "masked_ids N (eq_scalar G 0) (gt_scalar N 0) =
            Inr (item N ` {p \<in> ?I. item G p = 0 \<and> item N p > 0})"
    by (subst masked_ids_same) (simp_all add: gt_scalar_def eq_scalar_def sG sN)
  moreover have "item N ` {p \<in> ?I. item G p = 0 \<and> item N p > 0} =
      (\<lambda>p. item P p + n_gt) ` {p \<in> ?I. item G p = 0 \<and> item P p > 0}"
    by (rule image_cong) (auto simp: N)
  ultimately have m3: "masked_ids N (eq_scalar G 0) (gt_scalar N 0) =
      Inr ((\<lambda>p. item P p + n_gt) ` {p \<in> ?I. item G p = 0 \<and> item P p > 0})"
    by simp
  have "masked_ids G (gt_scalar G 0) (eq_scalar N 0) =
            Inr (item G ` {p \<in> ?I. item G p > 0 \<and> item N p = 0})"
    by (subst masked_ids_same) (simp_all add: gt_scalar_def eq_scalar_def sG sN)
  moreover have "{p \<in> ?I. item G p > 0 \<and> item N p = 0} = {p \<in> ?I. item G p > 0 \<and> item P p = 0}"
    by (auto simp: N)
  ultimately have m4: "masked_ids G (gt_scalar G 0) (eq_scalar N 0) =
      Inr (item G ` {p \<in> ?I. item G p > 0 \<and> item P p = 0})"
    by simp
  show ?thesis
    unfolding lesion_matching_def instances_def G P
    by (simp add: rec m1 m2 m3 m4)
qed

lemma card_plus_diff:
  assumes "finite X" and "finite Y"
  shows "card X + card (Y - X) = card (X \<union> Y)"
proof -
  have "card (X \<union> (Y - X)) = card X + card (Y - X)"
    using assms by (intro card_Un_disjoint) auto
  then show ?thesis by (simp add: Un_Diff_cancel)
qed

lemma finite_positions [simp]: "finite {p \<in> set (indices s). Q p}"
  by simp

lemma matching_counts:
  assumes sh: "shape labels = shape preds"
    and G: "label (eq_scalar labels c) = (G, n_gt)"
    and P: "label (eq_scalar preds c) = (P, n_pred)"
    and m: "lesion_matching labels preds c = Inr m"
  shows "card (tp_pred m) + card (fp_set m) = n_pred"
    and "card (tp_gt m) + card (fn_set m) = n_gt"
proof -
  let ?I = "set (indices (shape labels))"
  let ?f = "\<lambda>p. item P p + n_gt"
  let ?A = "{p \<in> ?I. item G p > 0 \<and> item P p > 0}"
  let ?B = "{p \<in> ?I. item G p = 0 \<and> item P p > 0}"
  let ?C = "{p \<in> ?I. item G p > 0 \<and> item P p = 0}"
  have sG: "shape G = shape labels" using label_shape [OF G] by (simp add: eq_scalar_def)
  have sP: "shape P = shape labels" using label_shape [OF P] by (simp add: eq_scalar_def sh)
  from m lesion_matching_same_shape [OF sh G P]
  have tpp: "tp_pred m = ?f ` ?A" and fp: "fp_set m = ?f ` ?B - ?f ` ?A"
    and tpg: "tp_gt m = item G ` ?A" and fn: "fn_set m = item G ` ?C - item G ` ?A"
    by auto
  have "?A \<union> ?B = {p \<in> ?I. item P p > 0}" by auto
  then have "?f ` ?A \<union> ?f ` ?B = (\<lambda>k. k + n_gt) ` item P ` {p \<in> ?I. item P p > 0}"
    by (simp add: image_Un [symmetric] image_image)
  also have "\<dots> = (\<lambda>k. k + n_gt) ` {1..n_pred}"
    using label_ids [OF P] by (simp add: sP)
  finally have "card (?f ` ?A \<union> ?f ` ?B) = card ((\<lambda>k. k + n_gt) ` {1..n_pred})" by simp
  also have "\<dots> = n_pred" by (simp add: card_image)
  finally show "card (tp_pred m) + card (fp_set m) = n_pred"
    by (simp add: tpp fp card_plus_diff)
  have "?A \<union> ?C = {p \<in> ?I. item G p > 0}" by auto
  then have "item G ` ?A \<union> item G ` ?C = item G ` {p \<in> ?I. item G p > 0}"
    by (simp add: image_Un [symmetric])
  also have "\<dots> = {1..n_gt}" using label_ids [OF G] by (simp add: sG)
  finally have "card (item G ` ?A \<union> item G ` ?C) = n_gt" by simp
  then show "card (tp_gt m) + card (fn_set m) = n_gt"
    by (simp add: tpg fn card_plus_diff)
qed

lemma masked_ids_cases:
  "masked_ids a m1 m2 = (case broadcast_shapes (shape m1) (shape m2) of
      None \<Rightarrow> Inl ValueError
    | Some s \<Rightarrow> if s = shape a
        then Inr (set (unique (map (item a) (filter
               (\<lambda>p. item (broadcast_to s m1) p \<and> item (broadcast_to s m2) p) (indices s)))))
        else Inl IndexError)"
  by (auto simp: masked_ids_def logical_and_def bool_index_def split: option.splits)

lemma lesion_matching_shape_mismatch:
  assumes "shape labels \<noteq> shape preds"
  shows "lesion_matching labels preds c = Inl ValueError
       \<or> lesion_matching labels preds c = Inl IndexError"
proof -
  obtain G n_gt where G: "label (eq_scalar labels c) = (G, n_gt)"
    by (cases "label (eq_scalar labels c)") auto
  obtain P n_pred where P: "label (eq_scalar preds c) = (P, n_pred)"
    by (cases "label (eq_scalar preds c)") auto
  have sG: "shape G = shape labels" using label_shape [OF G] by (simp add: eq_scalar_def)
  have sP: "shape P = shape preds" using label_shape [OF P] by (simp add: eq_scalar_def)
  obtain N where rec: "reconcile P n_pred n_gt = Inr N" and sN: "shape N = shape preds"
    using reconcile_eq [of P n_pred n_gt] by (simp add: sP)
  show ?thesis
  proof (cases "broadcast_shapes (shape labels) (shape preds)")
    case None
    then have "masked_ids G (gt_scalar G 0) (gt_scalar P 0) = Inl ValueError"
      by (simp add: masked_ids_cases gt_scalar_def sG sP)
    then show ?thesis by (simp add: lesion_matching_def instances_def G P rec)
  next
    case (Some s)
    show ?thesis
    proof (cases "s = shape labels")
      case False
      with Some have "masked_ids G (gt_scalar G 0) (gt_scalar P 0) = Inl IndexError"
        by (simp add: masked_ids_cases gt_scalar_def sG sP)
      then show ?thesis by (simp add: lesion_matching_def instances_def G P rec)
    next
      case True
      with Some obtain tpg where
        m1: "masked_ids G (gt_scalar G 0) (gt_scalar P 0) = Inr tpg"
        by (simp add: masked_ids_cases gt_scalar_def sG sP)
      from True assms have "s \<noteq> shape N" by (simp add: sN)
      with Some have "masked_ids N (gt_scalar G 0) (gt_scalar N 0) = Inl IndexError"
        by (simp add: masked_ids_cases gt_scalar_def sG sN)
      with m1 show ?thesis by (simp add: lesion_matching_def instances_def G P rec)
    qed
  qed
qed

lemma metrics_same_shape:
  assumes sh: "shape labels = shape preds"
    and G: "label (eq_scalar labels c) = (G, n_gt)"
    and P: "label (eq_scalar preds c) = (P, n_pred)"
  shows "\<exists>m. lesion_matching labels preds c = Inr m
           \<and> n_gt_lesions m = n_gt \<and> n_predicted_lesions m = n_pred
           \<and> card (tp_pred m) + card (fp_set m) = n_pred
           \<and> card (tp_gt m) + card (fn_set m) = n_gt
           \<and> compute_lesion_level_metrics labels preds c =
               Inr (n_gt, n_pred, card (tp_gt m), card (fp_set m), card (fn_set m))"
proof -
  from lesion_matching_same_shape [OF sh G P]
  obtain m where m: "lesion_matching labels preds c = Inr m"
    and n: "n_gt_lesions m = n_gt" "n_predicted_lesions m = n_pred"
    by simp
  note k = matching_counts [OF sh G P m]
  have "compute_lesion_level_metrics labels preds c =
          Inr (n_gt, n_pred, card (tp_gt m), card (fp_set m), card (fn_set m))"
    by (simp add: compute_lesion_level_metrics_def m k n Let_def)
  with m k n show ?thesis by blast
qed


section \<open>The counting identities\<close>

text \<open>
  Claim C1. For two volumes of one shape and every lesion class, the matching succeeds and
  its sets satisfy \<open>|tp_pred| + |fp| = n_predicted_lesions\<close> and
  \<open>|tp_gt| + |fn| = n_gt_lesions\<close>; hence neither assertion of
  \<^verbatim>\<open>compute_lesion_level_metrics\<close> fires and the function returns its five counts.
\<close>

theorem matching_identities:
  assumes "shape labels = shape preds"
  shows "\<exists>m. lesion_matching labels preds lesion_class = Inr m
           \<and> card (tp_pred m) + card (fp_set m) = n_predicted_lesions m
           \<and> card (tp_gt m) + card (fn_set m) = n_gt_lesions m
           \<and> compute_lesion_level_metrics labels preds lesion_class =
               Inr (n_gt_lesions m, n_predicted_lesions m,
                    card (tp_gt m), card (fp_set m), card (fn_set m))"
proof -
  obtain G n_gt where G: "label (eq_scalar labels lesion_class) = (G, n_gt)"
    by (cases "label (eq_scalar labels lesion_class)") auto
  obtain P n_pred where P: "label (eq_scalar preds lesion_class) = (P, n_pred)"
    by (cases "label (eq_scalar preds lesion_class)") auto
  from metrics_same_shape [OF assms G P] show ?thesis by auto
qed

theorem matching_identities_witness:
  "shape exD_labels = shape exD_preds \<and>
   (\<exists>m. lesion_matching exD_labels exD_preds 2 = Inr m
           \<and> card (tp_pred m) + card (fp_set m) = n_predicted_lesions m
           \<and> card (tp_gt m) + card (fn_set m) = n_gt_lesions m
           \<and> compute_lesion_level_metrics exD_labels exD_preds 2 =
               Inr (n_gt_lesions m, n_predicted_lesions m,
                    card (tp_gt m), card (fp_set m), card (fn_set m)))"
proof -
  have h: "shape exD_labels = shape exD_preds"
    by (simp add: exD_labels_def exD_preds_def reshape_def)
  from matching_identities [OF h, of 2] h show ?thesis by simp
qed

section \<open>Reconciliation of the identifiers\<close>

text \<open>
  Claim C7. When the identifiers of the predicted instance map lie in \<open>[0, n_pred]\<close>, the
  relabelling loop returns a map of the same shape in which every non-zero identifier is the
  original one plus \<open>n_gt\<close>. The non-zero values therefore lie in
  \<open>[n_gt + 1, n_gt + n_pred]\<close>, outside the ground-truth range \<open>[1, n_gt]\<close>, and two
  voxels carry the same new identifier exactly when they carried the same old one, so no
  two predicted instances are merged.
\<close>

theorem reconcile_shifts_ids:
  assumes "\<forall>p \<in> set (indices (shape predicted)). item predicted p \<le> n_pred"
  shows "\<exists>new. reconcile predicted n_pred n_gt = Inr new \<and> shape new = shape predicted \<and>
     (\<forall>p \<in> set (indices (shape predicted)).
        item new p = (if item predicted p = 0 then 0 else item predicted p + n_gt) \<and>
        (item new p \<noteq> 0 \<longrightarrow>
           n_gt + 1 \<le> item new p \<and> item new p \<le> n_gt + n_pred \<and> item new p \<notin> {1..n_gt})) \<and>
     (\<forall>p \<in> set (indices (shape predicted)). \<forall>q \<in> set (indices (shape predicted)).
        item new p = item new q \<longleftrightarrow> item predicted p = item predicted q)"
proof -
  define new :: "nat ndarray" where "new = \<lparr>shape = shape predicted,
          item = (\<lambda>p. if 1 \<le> item predicted p \<and> item predicted p \<le> n_pred
                      then item predicted p + n_gt else item predicted p)\<rparr>"
  have r: "reconcile predicted n_pred n_gt = Inr new" by (simp add: reconcile_eq new_def)
  have s: "shape new = shape predicted" by (simp add: new_def)
  have v: "item new p = (if item predicted p = 0 then 0 else item predicted p + n_gt)"
    if "p \<in> set (indices (shape predicted))" for p
    using assms that by (auto simp: new_def)
  have a: "\<forall>p \<in> set (indices (shape predicted)).
        item new p = (if item predicted p = 0 then 0 else item predicted p + n_gt) \<and>
        (item new p \<noteq> 0 \<longrightarrow>
           n_gt + 1 \<le> item new p \<and> item new p \<le> n_gt + n_pred \<and> item new p \<notin> {1..n_gt})"
    using assms by (auto simp: v)
  have b: "\<forall>p \<in> set (indices (shape predicted)). \<forall>q \<in> set (indices (shape predicted)).
        item new p = item new q \<longleftrightarrow> item predicted p = item predicted q"
    by (auto simp: v)
  from r s a b show ?thesis by blast
qed

theorem reconcile_shifts_ids_witness:
  "list_all (\<lambda>p. item ex_instances p \<le> 2) (indices (shape ex_instances)) \<and>
   (\<exists>new. reconcile ex_instances 2 3 = Inr new \<and> shape new = (1, 1, 4) \<and>
          flatten new = [4, 0, 5, 5])"
proof -
  have h: "\<forall>p \<in> set (indices (shape ex_instances)). item ex_instances p \<le> 2"
    by code_simp
  from reconcile_shifts_ids [OF h, of 3] obtain new
    where r: "reconcile ex_instances 2 3 = Inr new"
      and s: "shape new = shape ex_instances"
      and v: "\<forall>p \<in> set (indices (shape ex_instances)).
                item new p = (if item ex_instances p = 0 then 0 else item ex_instances p + 3)"
    by blast
  have "flatten new = map (\<lambda>p. if item ex_instances p = 0 then 0 else item ex_instances p + 3)
                        (indices (shape ex_instances))"
    unfolding flatten_def s using v by (intro map_cong) auto
  also have "\<dots> = [4, 0, 5, 5]" by code_simp
  finally have f: "flatten new = [4, 0, 5, 5]" .
  have "shape ex_instances = (1, 1, 4)" by code_simp
  with s have s': "shape new = (1, 1, 4)" by simp
  have "list_all (\<lambda>p. item ex_instances p \<le> 2) (indices (shape ex_instances))"
    by code_simp
  with r s' f show ?thesis by blast
qed

section \<open>The false positives\<close>

text \<open>
  Claim C5. For two volumes of one shape, the false-positive set of the matching is exactly
  the set of (shifted) predicted instance identifiers all of whose voxels lie where the
  ground-truth volume does not carry the lesion class; its cardinality is the returned
  FP count. So a predicted instance without any overlap with the ground-truth foreground is
  always a false positive.
\<close>


theorem false_positive_set:
  assumes sh: "shape labels = shape preds"
  shows "\<exists>m. lesion_matching labels preds c = Inr m \<and>
     fp_set m = {i \<in> {n_gt_lesions m + 1 .. n_gt_lesions m + n_predicted_lesions m}.
                  \<forall>q \<in> set (indices (shape preds)).
                    item (fst (instances preds c)) q + n_gt_lesions m = i \<longrightarrow> item labels q \<noteq> c} \<and>
     compute_lesion_level_metrics labels preds c =
       Inr (n_gt_lesions m, n_predicted_lesions m, card (tp_gt m), card (fp_set m), card (fn_set m))"
proof -
  obtain G n_gt where G: "label (eq_scalar labels c) = (G, n_gt)"
    by (cases "label (eq_scalar labels c)") auto
  obtain P n_pred where P: "label (eq_scalar preds c) = (P, n_pred)"
    by (cases "label (eq_scalar preds c)") auto
  let ?I = "set (indices (shape labels))"
  let ?f = "\<lambda>p. item P p + n_gt"
  have sP: "shape P = shape labels" using label_shape [OF P] by (simp add: eq_scalar_def sh)
  from lesion_matching_same_shape [OF sh G P]
  obtain m where m: "lesion_matching labels preds c = Inr m"
    and n: "n_gt_lesions m = n_gt" "n_predicted_lesions m = n_pred"
    and fp: "fp_set m = ?f ` {p \<in> ?I. item G p = 0 \<and> item P p > 0}
                         - ?f ` {p \<in> ?I. item G p > 0 \<and> item P p > 0}"
    by simp
  have Gz: "item G q = 0 \<longleftrightarrow> item labels q \<noteq> c" if "q \<in> ?I" for q
    using label_nonzero [OF G, of q] that by (auto simp: eq_scalar_def)
  have ids: "item P ` {p \<in> ?I. item P p > 0} = {1..n_pred}"
    using label_ids [OF P] by (simp add: sP)
  have "fp_set m = {i \<in> {n_gt + 1 .. n_gt + n_pred}.
                  \<forall>q \<in> ?I. item P q + n_gt = i \<longrightarrow> item labels q \<noteq> c}" (is "_ = ?R")
  proof (intro set_eqI iffI)
    fix i assume "i \<in> fp_set m"
    with fp obtain p where p: "p \<in> ?I" "item G p = 0" "item P p > 0" "i = ?f p"
      and no: "i \<notin> ?f ` {p \<in> ?I. item G p > 0 \<and> item P p > 0}" by auto
    from p label_le [OF P, of p] have "i \<in> {n_gt + 1 .. n_gt + n_pred}" by auto
    moreover have "item labels q \<noteq> c" if "q \<in> ?I" "item P q + n_gt = i" for q
    proof -
      from that p have "item P q > 0" by simp
      with no that have "\<not> item G q > 0" by auto
      with Gz [OF that(1)] show ?thesis by simp
    qed
    ultimately show "i \<in> ?R" by simp
  next
    fix i assume i: "i \<in> ?R"
    then have "i - n_gt \<in> {1..n_pred}" by auto
    with ids obtain p where p: "p \<in> ?I" "item P p > 0" "item P p = i - n_gt" by (metis (mono_tags, lifting) imageE mem_Collect_eq)
    with i have ip: "?f p = i" by auto
    with i p have "item labels p \<noteq> c" by auto
    with Gz [OF p(1)] have "item G p = 0" by simp
    with p have "p \<in> {p \<in> ?I. item G p = 0 \<and> item P p > 0}" by simp
    then have "?f p \<in> ?f ` {p \<in> ?I. item G p = 0 \<and> item P p > 0}" by (rule imageI)
    then have "i \<in> ?f ` {p \<in> ?I. item G p = 0 \<and> item P p > 0}" by (simp only: ip)
    moreover have "i \<notin> ?f ` {p \<in> ?I. item G p > 0 \<and> item P p > 0}"
    proof
      assume "i \<in> ?f ` {p \<in> ?I. item G p > 0 \<and> item P p > 0}"
      then obtain q where q: "q \<in> ?I" "item G q > 0" "?f q = i" by auto
      with i have "item labels q \<noteq> c" by auto
      with Gz [OF q(1)] q show False by simp
    qed
    ultimately show "i \<in> fp_set m" by (simp add: fp)
  qed
  moreover from metrics_same_shape [OF sh G P] m n
  have "compute_lesion_level_metrics labels preds c =
       Inr (n_gt_lesions m, n_predicted_lesions m, card (tp_gt m), card (fp_set m), card (fn_set m))"
    by auto
  ultimately show ?thesis using m n P sh by (auto simp: instances_def)
qed

theorem false_positive_set_witness:
  "shape exE_labels = shape exE_preds \<and>
   (\<exists>m. lesion_matching exE_labels exE_preds 2 = Inr m \<and> fp_set m = {3} \<and>
        compute_lesion_level_metrics exE_labels exE_preds 2 = Inr (1, 2, 1, 1, 0))"
proof -
  have h: "shape exE_labels = shape exE_preds" by code_simp
  from false_positive_set [OF h, of 2] obtain m
    where m: "lesion_matching exE_labels exE_preds 2 = Inr m"
      and fp: "fp_set m = {i \<in> {n_gt_lesions m + 1 .. n_gt_lesions m + n_predicted_lesions m}.
                  \<forall>q \<in> set (indices (shape exE_preds)).
                    item (fst (instances exE_preds 2)) q + n_gt_lesions m = i \<longrightarrow>
                    item exE_labels q \<noteq> 2}"
      and r: "compute_lesion_level_metrics exE_labels exE_preds 2 =
       Inr (n_gt_lesions m, n_predicted_lesions m, card (tp_gt m), card (fp_set m), card (fn_set m))"
    by blast
  have e: "compute_lesion_level_metrics exE_labels exE_preds 2 = Inr (1, 2, 1, 1, 0)"
    by code_simp
  from r e have n: "n_gt_lesions m = 1" "n_predicted_lesions m = 2" by simp_all
  have "{i \<in> {1 + 1 .. 1 + (2::nat)}.
                  \<forall>q \<in> set (indices (shape exE_preds)).
                    item (fst (instances exE_preds 2)) q + 1 = i \<longrightarrow> item exE_labels q \<noteq> 2} = {3}"
    by code_simp
  with fp n have "fp_set m = {3}" by simp
  with h m e show ?thesis by blast
qed

section \<open>The true positives\<close>

text \<open>
  Claim C3. For two volumes of one shape, the reported true-positive count is the number of
  ground-truth instance identifiers that share a voxel with a predicted instance. If there
  is one predicted instance and it overlaps each of the \<open>k \<ge> 1\<close> ground-truth instances,
  the result is \<open>(k, 1, k, 0, 0)\<close> with that one predicted identifier in \<open>tp_pred\<close>; if
  there is one ground-truth instance and some predicted voxel overlaps it, the
  true-positive count is 1 whatever the number of predicted fragments.
\<close>

theorem true_positive_count:
  assumes sh: "shape labels = shape preds"
  shows "\<exists>m. lesion_matching labels preds c = Inr m \<and>
     n_gt_lesions m = snd (instances labels c) \<and>
     n_predicted_lesions m = snd (instances preds c) \<and>
     tp_gt m = {g. 0 < g \<and> (\<exists>p \<in> set (indices (shape labels)).
                  item (fst (instances labels c)) p = g \<and> 0 < item (fst (instances preds c)) p)} \<and>
     compute_lesion_level_metrics labels preds c =
       Inr (n_gt_lesions m, n_predicted_lesions m, card (tp_gt m), card (fp_set m), card (fn_set m)) \<and>
     (n_predicted_lesions m = 1 \<and> 1 \<le> n_gt_lesions m \<and>
      (\<forall>g \<in> {1..n_gt_lesions m}. \<exists>p \<in> set (indices (shape labels)).
          item (fst (instances labels c)) p = g \<and> 0 < item (fst (instances preds c)) p) \<longrightarrow>
        tp_pred m = {n_gt_lesions m + 1} \<and>
        compute_lesion_level_metrics labels preds c =
          Inr (n_gt_lesions m, 1, n_gt_lesions m, 0, 0)) \<and>
     (n_gt_lesions m = 1 \<and>
      (\<exists>p \<in> set (indices (shape labels)).
          0 < item (fst (instances labels c)) p \<and> 0 < item (fst (instances preds c)) p) \<longrightarrow>
        card (tp_gt m) = 1)"
proof -
  obtain G n_gt where G: "label (eq_scalar labels c) = (G, n_gt)"
    by (cases "label (eq_scalar labels c)") auto
  obtain P n_pred where P: "label (eq_scalar preds c) = (P, n_pred)"
    by (cases "label (eq_scalar preds c)") auto
  let ?I = "set (indices (shape labels))"
  let ?A = "{p \<in> ?I. item G p > 0 \<and> item P p > 0}"
  from lesion_matching_same_shape [OF sh G P]
  obtain m where m: "lesion_matching labels preds c = Inr m"
    and tpg: "tp_gt m = item G ` ?A"
    and tpp: "tp_pred m = (\<lambda>p. item P p + n_gt) ` ?A"
    by simp
  from metrics_same_shape [OF sh G P] m
  have n: "n_gt_lesions m = n_gt" "n_predicted_lesions m = n_pred"
    and k1: "card (tp_pred m) + card (fp_set m) = n_pred"
    and k2: "card (tp_gt m) + card (fn_set m) = n_gt"
    and r: "compute_lesion_level_metrics labels preds c =
               Inr (n_gt, n_pred, card (tp_gt m), card (fp_set m), card (fn_set m))"
    by auto
  have sub: "tp_gt m \<subseteq> {1..n_gt}" using label_le [OF G] by (auto simp: tpg)
  have set_eq: "tp_gt m = {g. 0 < g \<and> (\<exists>p \<in> ?I. item G p = g \<and> 0 < item P p)}"
    by (auto simp: tpg)
  have blob: "tp_pred m = {n_gt + 1} \<and>
      compute_lesion_level_metrics labels preds c = Inr (n_gt, 1, n_gt, 0, 0)"
    if np: "n_pred = 1" and ng: "1 \<le> n_gt"
      and all: "\<forall>g \<in> {1..n_gt}. \<exists>p \<in> ?I. item G p = g \<and> 0 < item P p"
  proof -
    have "{1..n_gt} \<subseteq> tp_gt m"
    proof
      fix g assume g: "g \<in> {1..n_gt}"
      with all obtain p where "p \<in> ?I" "item G p = g" "0 < item P p" by blast
      with g show "g \<in> tp_gt m" by (auto simp: tpg)
    qed
    with sub have full: "tp_gt m = {1..n_gt}" by auto
    then have c1: "card (tp_gt m) = n_gt" by simp
    with k2 have c2: "card (fn_set m) = 0" by simp
    from ng full have "1 \<in> item G ` ?A" by (simp add: tpg [symmetric])
    then have ne: "?A \<noteq> {}" by auto
    have "item P p = 1" if "p \<in> ?A" for p
      using that label_le [OF P, of p] np by auto
    then have "(\<lambda>p. item P p + n_gt) ` ?A = (\<lambda>p. n_gt + 1) ` ?A" by (intro image_cong) auto
    also have "\<dots> = {n_gt + 1}" using ne by auto
    finally have t: "tp_pred m = {n_gt + 1}" by (simp add: tpp)
    with k1 np have "card (fp_set m) = 0" by simp
    with r c1 c2 np t show ?thesis by simp
  qed
  have single: "card (tp_gt m) = 1"
    if ng: "n_gt = 1" and ov: "\<exists>p \<in> ?I. 0 < item G p \<and> 0 < item P p"
  proof -
    from ov have "tp_gt m \<noteq> {}" by (auto simp: tpg)
    with sub ng have "tp_gt m = {1}" by auto
    then show ?thesis by simp
  qed
  have i1: "fst (instances labels c) = G" "snd (instances labels c) = n_gt"
    and i2: "fst (instances preds c) = P" "snd (instances preds c) = n_pred"
    by (simp_all add: instances_def G P)
  show ?thesis
    unfolding i1 i2
    apply (rule exI [of _ m])
    apply (intro conjI)
          apply (rule m)
         apply (rule n)
        apply (rule n)
       apply (rule set_eq)
      apply (simp add: r n)
     apply (simp only: n)
    using blob apply blast
    apply (simp only: n)
    using single apply blast
    done
qed

theorem true_positive_count_witness:
  "shape exD_labels = shape exD_preds \<and>
   snd (instances exD_preds 2) = 1 \<and> snd (instances exD_labels 2) = 2 \<and>
   list_all (\<lambda>g. list_ex (\<lambda>p. item (fst (instances exD_labels 2)) p = g \<and>
                       0 < item (fst (instances exD_preds 2)) p) (indices (shape exD_labels))) [1, 2] \<and>
   (\<exists>m. lesion_matching exD_labels exD_preds 2 = Inr m \<and> tp_pred m = {3} \<and> card (tp_gt m) = 2) \<and>
   compute_lesion_level_metrics exD_labels exD_preds 2 = Inr (2, 1, 2, 0, 0) \<and>
   shape exC_labels = shape exC_preds \<and>
   snd (instances exC_labels 1) = 1 \<and> snd (instances exC_preds 1) = 2 \<and>
   list_ex (\<lambda>p. 0 < item (fst (instances exC_labels 1)) p \<and>
                0 < item (fst (instances exC_preds 1)) p) (indices (shape exC_labels)) \<and>
   (\<exists>m. lesion_matching exC_labels exC_preds 1 = Inr m \<and> card (tp_gt m) = 1) \<and>
   compute_lesion_level_metrics exC_labels exC_preds 1 = Inr (1, 2, 1, 0, 0)"
proof -
  have h: "shape exD_labels = shape exD_preds" by code_simp
  have a1: "snd (instances exD_preds 2) = 1" and a2: "snd (instances exD_labels 2) = 2"
    by code_simp+
  have a3: "\<forall>g \<in> {1..2}. \<exists>p \<in> set (indices (shape exD_labels)).
          item (fst (instances exD_labels 2)) p = g \<and> 0 < item (fst (instances exD_preds 2)) p"
    by code_simp
  have a3': "list_all (\<lambda>g. list_ex (\<lambda>p. item (fst (instances exD_labels 2)) p = g \<and>
                       0 < item (fst (instances exD_preds 2)) p) (indices (shape exD_labels))) [1, 2]"
    by code_simp
  from true_positive_count [OF h, of 2] a1 a2 a3
  obtain m where m: "lesion_matching exD_labels exD_preds 2 = Inr m"
     and t: "tp_pred m = {3}"
     and r: "compute_lesion_level_metrics exD_labels exD_preds 2 = Inr (2, 1, 2, 0, 0)"
     and r': "compute_lesion_level_metrics exD_labels exD_preds 2 =
       Inr (n_gt_lesions m, n_predicted_lesions m, card (tp_gt m), card (fp_set m), card (fn_set m))"
    by auto
  from r r' have ct: "card (tp_gt m) = 2" by simp
  have h2: "shape exC_labels = shape exC_preds" by code_simp
  have b1: "snd (instances exC_labels 1) = 1" and b2: "snd (instances exC_preds 1) = 2"
    by code_simp+
  have b3: "\<exists>p \<in> set (indices (shape exC_labels)).
          0 < item (fst (instances exC_labels 1)) p \<and> 0 < item (fst (instances exC_preds 1)) p"
    by code_simp
  have b3': "list_ex (\<lambda>p. 0 < item (fst (instances exC_labels 1)) p \<and>
                0 < item (fst (instances exC_preds 1)) p) (indices (shape exC_labels))"
    by code_simp
  from true_positive_count [OF h2, of 1] b1 b3
  obtain m2 where m2: "lesion_matching exC_labels exC_preds 1 = Inr m2"
     and c2: "card (tp_gt m2) = 1"
    by auto
  have r2: "compute_lesion_level_metrics exC_labels exC_preds 1 = Inr (1, 2, 1, 0, 0)"
    by code_simp
  from h a1 a2 a3' m t ct r h2 b1 b2 b3' m2 c2 r2 show ?thesis by blast
qed

section \<open>Counting with equivalent keys\<close>

lemma card_image_eq_of_cong:
  assumes "finite A" and "\<And>x y. x \<in> A \<Longrightarrow> y \<in> A \<Longrightarrow> f x = f y \<longleftrightarrow> g x = g y"
  shows "card (f ` A) = card (g ` A)"
proof -
  have "bij_betw (\<lambda>v. g (SOME x. x \<in> A \<and> f x = v)) (f ` A) (g ` A)"
  proof (rule bij_betwI')
    fix v w assume "v \<in> f ` A" "w \<in> f ` A"
    then obtain x y where x: "x \<in> A" "v = f x" and y: "y \<in> A" "w = f y" by auto
    have sx: "(SOME z. z \<in> A \<and> f z = v) \<in> A \<and> f (SOME z. z \<in> A \<and> f z = v) = v"
      by (rule someI [of _ x]) (simp add: x)
    have sy: "(SOME z. z \<in> A \<and> f z = w) \<in> A \<and> f (SOME z. z \<in> A \<and> f z = w) = w"
      by (rule someI [of _ y]) (simp add: y)
    from sx sy assms(2) show "(g (SOME x. x \<in> A \<and> f x = v) = g (SOME x. x \<in> A \<and> f x = w)) = (v = w)"
      by metis
  next
    fix v assume "v \<in> f ` A"
    then obtain x where x: "x \<in> A" "v = f x" by auto
    have "(SOME z. z \<in> A \<and> f z = v) \<in> A \<and> f (SOME z. z \<in> A \<and> f z = v) = v"
      by (rule someI [of _ x]) (simp add: x)
    then show "g (SOME x. x \<in> A \<and> f x = v) \<in> g ` A" by blast
  next
    fix u assume "u \<in> g ` A"
    then obtain x where x: "x \<in> A" "u = g x" by auto
    have sx: "(SOME z. z \<in> A \<and> f z = f x) \<in> A \<and> f (SOME z. z \<in> A \<and> f z = f x) = f x"
      by (rule someI [of _ x]) (simp add: x)
    with assms(2) x have "g (SOME z. z \<in> A \<and> f z = f x) = g x" by metis
    with x have "u = g (SOME z. z \<in> A \<and> f z = f x)" by simp
    moreover have "f x \<in> f ` A" using x by simp
    ultimately show "\<exists>v \<in> f ` A. u = g (SOME x. x \<in> A \<and> f x = v)" by blast
  qed
  then show ?thesis by (rule bij_betw_same_card)
qed


section \<open>The cohort loop\<close>

lemma f1_score_eq:
  "f1_score tp fp fn = Inr (if 2 * tp + fp + fn = 0 then NaN
                            else Float (real (2 * tp) / real (2 * tp + fp + fn)))"
  unfolding f1_score_def py_truediv_def by (cases "2 * tp + fp + fn = 0") simp_all

lemma compute_all_loop_key_error:
  "ld cid = None \<Longrightarrow> compute_all_loop (cid # ids) ld pd c acc = Inl KeyError"
  "ld cid = Some labels \<Longrightarrow> pd cid = None \<Longrightarrow>
     compute_all_loop (cid # ids) ld pd c acc = Inl KeyError"
  by (simp_all only: compute_all_loop.simps option.case)

lemma compute_all_loop_raise:
  assumes "ld cid = Some labels" and "pd cid = Some preds"
    and "compute_lesion_level_metrics labels preds c = Inl e"
  shows "compute_all_loop (cid # ids) ld pd c acc = Inl e"
  using assms by (simp only: compute_all_loop.simps option.case sum.case)

lemma compute_all_loop_append:
  assumes "ld cid = Some labels" and "pd cid = Some preds"
    and "compute_lesion_level_metrics labels preds c = Inr (n_gt, n_pred, tp, fp, fn)"
    and "f1_score tp fp fn = Inr f1"
  shows "compute_all_loop (cid # ids) ld pd c acc =
     compute_all_loop ids ld pd c
       (acc @ [\<lparr>case_id = cid, lesion_str = (if c = 2 then ''new'' else ''basal''),
                n_ref_lesions = n_gt, n_pred_lesions = n_pred,
                lesion_tp = tp, lesion_fp = fp, lesion_fn = fn, lesion_F1 = f1\<rparr>])"
  using assms by (simp only: compute_all_loop.simps option.case sum.case prod.case)

lemma compute_all_loop_cons:
  assumes run: "compute_all_loop (cid # ids) ld pd c acc = Inr rows"
  shows "\<exists>row. case_id row = cid \<and> row_of ld pd c row \<and>
           compute_all_loop ids ld pd c (acc @ [row]) = Inr rows"
proof (cases "ld cid")
  case None
  have "compute_all_loop (cid # ids) ld pd c acc = Inl KeyError"
    by (rule compute_all_loop_key_error(1)) (fact None)
  with run show ?thesis by (simp only: sum.distinct)
next
  case l: (Some labels)
  show ?thesis
  proof (cases "pd cid")
    case None
    have "compute_all_loop (cid # ids) ld pd c acc = Inl KeyError"
      by (rule compute_all_loop_key_error(2)) (fact l, fact None)
    with run show ?thesis by (simp only: sum.distinct)
  next
    case p: (Some preds)
    show ?thesis
    proof (cases "compute_lesion_level_metrics labels preds c")
      case (Inl e)
      have "compute_all_loop (cid # ids) ld pd c acc = Inl e"
        by (rule compute_all_loop_raise) (fact l, fact p, fact Inl)
      with run show ?thesis by (simp only: sum.distinct)
    next
      case (Inr res)
      obtain n_gt n_pred tp fp fn where res: "res = (n_gt, n_pred, tp, fp, fn)"
        by (cases res) auto
      obtain f1 where f: "f1_score tp fp fn = Inr f1"
        unfolding f1_score_eq by blast
      define row where "row = \<lparr>case_id = cid,
                lesion_str = (if c = 2 then ''new'' else ''basal''),
                n_ref_lesions = n_gt, n_pred_lesions = n_pred,
                lesion_tp = tp, lesion_fp = fp, lesion_fn = fn, lesion_F1 = f1\<rparr>"
      have sel: "case_id row = cid" "n_ref_lesions row = n_gt" "n_pred_lesions row = n_pred"
          "lesion_tp row = tp" "lesion_fp row = fp" "lesion_fn row = fn" "lesion_F1 row = f1"
        by (simp_all only: row_def lesion_row.select_convs)
      have r: "compute_lesion_level_metrics labels preds c = Inr (n_gt, n_pred, tp, fp, fn)"
        by (simp only: Inr res)
      have "compute_all_loop (cid # ids) ld pd c acc =
              compute_all_loop ids ld pd c (acc @ [row])"
        unfolding row_def by (rule compute_all_loop_append) (fact l, fact p, fact r, fact f)
      with run have next_run: "compute_all_loop ids ld pd c (acc @ [row]) = Inr rows"
        by (simp only:)
      have "row_of ld pd c row"
        unfolding row_of_def sel using l p r f by blast
      with sel(1) next_run show ?thesis by blast
    qed
  qed
qed

lemma compute_all_loop_rows:
  assumes "compute_all_loop ids ld pd c acc = Inr rows"
  shows "\<exists>new. rows = acc @ new \<and> map case_id new = ids \<and> (\<forall>r \<in> set new. row_of ld pd c r)"
  using assms
proof (induction ids arbitrary: acc)
  case Nil
  then show ?case by simp
next
  case (Cons cid ids)
  from compute_all_loop_cons [OF Cons.prems] obtain row
    where row: "case_id row = cid" "row_of ld pd c row"
      and run: "compute_all_loop ids ld pd c (acc @ [row]) = Inr rows"
    by blast
  from Cons.IH [OF run] obtain new
    where new: "rows = (acc @ [row]) @ new" "map case_id new = ids"
            "\<forall>r \<in> set new. row_of ld pd c r"
    by blast
  with row have "rows = acc @ (row # new) \<and> map case_id (row # new) = cid # ids \<and>
                 (\<forall>r \<in> set (row # new). row_of ld pd c r)" by simp
  then show ?case by (rule exI [of _ "row # new"])
qed

lemma compute_all_rows:
  assumes "compute_all_lesion_level_metrics ids ld pd c = Inr rows"
  shows "map case_id rows = ids" and "r \<in> set rows \<Longrightarrow> row_of ld pd c r"
  using compute_all_loop_rows [of ids ld pd c "[]" rows] assms
  by (auto simp: compute_all_lesion_level_metrics_def)

lemma compute_metrics_shape_mismatch:
  assumes "shape labels \<noteq> shape preds"
  shows "compute_lesion_level_metrics labels preds c = Inl ValueError
       \<or> compute_lesion_level_metrics labels preds c = Inl IndexError"
  using lesion_matching_shape_mismatch [OF assms, of c]
  by (auto simp: compute_lesion_level_metrics_def)

lemma compute_metrics_success:
  assumes r: "compute_lesion_level_metrics labels preds c = Inr (n_gt, n_pred, tp, fp, fn)"
  shows "shape labels = shape preds" and "tp + fn = n_gt"
    and "tp = 0 \<and> fp = 0 \<and> fn = 0 \<longleftrightarrow> n_gt = 0 \<and> n_pred = 0"
proof -
  show sh: "shape labels = shape preds"
    using compute_metrics_shape_mismatch [of labels preds c] r by auto
  obtain G g where G: "label (eq_scalar labels c) = (G, g)"
    by (cases "label (eq_scalar labels c)") auto
  obtain P p where P: "label (eq_scalar preds c) = (P, p)"
    by (cases "label (eq_scalar preds c)") auto
  let ?A = "{q \<in> set (indices (shape labels)). item G q > 0 \<and> item P q > 0}"
  from metrics_same_shape [OF sh G P] r obtain m
    where m: "lesion_matching labels preds c = Inr m"
      and k1: "card (tp_pred m) + fp = n_pred" and k2: "tp + fn = n_gt"
      and tp: "tp = card (tp_gt m)"
    by auto
  from lesion_matching_same_shape [OF sh G P] m
  have tpg: "tp_gt m = item G ` ?A" and tpp: "tp_pred m = (\<lambda>q. item P q + g) ` ?A"
    by auto
  have "card (tp_gt m) = 0 \<longleftrightarrow> card (tp_pred m) = 0"
    by (simp add: tpg tpp)
  with k1 k2 tp show "tp = 0 \<and> fp = 0 \<and> fn = 0 \<longleftrightarrow> n_gt = 0 \<and> n_pred = 0" by auto
  show "tp + fn = n_gt" by (rule k2)
qed

section \<open>The F1 score of a case\<close>

text \<open>
  Claim C4. For every record of the table returned by
  \<^verbatim>\<open>compute_all_lesion_level_metrics\<close>, the F1 score is \<open>2 TP / (2 TP + FP + FN)\<close> when the
  denominator is not zero, and then lies in \<open>[0, 1]\<close>; the denominator is zero exactly when
  \<open>TP = FP = FN = 0\<close>, which holds exactly when the case has neither a ground-truth nor a
  predicted instance of the class, and then the record carries the not-a-number value.
\<close>

theorem f1_reported:
  assumes "compute_all_lesion_level_metrics ids labels_dict preds_dict lesion_class = Inr rows"
    and "r \<in> set rows"
  shows "lesion_F1 r =
           (if 2 * lesion_tp r + lesion_fp r + lesion_fn r = 0 then NaN
            else Float (real (2 * lesion_tp r) / real (2 * lesion_tp r + lesion_fp r + lesion_fn r)))
       \<and> (2 * lesion_tp r + lesion_fp r + lesion_fn r = 0 \<longleftrightarrow>
            lesion_tp r = 0 \<and> lesion_fp r = 0 \<and> lesion_fn r = 0)
       \<and> (lesion_tp r = 0 \<and> lesion_fp r = 0 \<and> lesion_fn r = 0 \<longleftrightarrow>
            n_ref_lesions r = 0 \<and> n_pred_lesions r = 0)
       \<and> (lesion_F1 r = NaN \<longleftrightarrow> n_ref_lesions r = 0 \<and> n_pred_lesions r = 0)
       \<and> (\<forall>x. lesion_F1 r = Float x \<longrightarrow> 0 \<le> x \<and> x \<le> 1)
       \<and> (\<exists>labels preds. labels_dict (case_id r) = Some labels \<and> preds_dict (case_id r) = Some preds
            \<and> compute_lesion_level_metrics labels preds lesion_class =
                Inr (n_ref_lesions r, n_pred_lesions r, lesion_tp r, lesion_fp r, lesion_fn r))"
proof -
  from compute_all_rows(2) [OF assms] obtain labels preds
    where l: "labels_dict (case_id r) = Some labels" "preds_dict (case_id r) = Some preds"
      and c: "compute_lesion_level_metrics labels preds lesion_class =
          Inr (n_ref_lesions r, n_pred_lesions r, lesion_tp r, lesion_fp r, lesion_fn r)"
      and f: "f1_score (lesion_tp r) (lesion_fp r) (lesion_fn r) = Inr (lesion_F1 r)"
    unfolding row_of_def by blast
  let ?d = "2 * lesion_tp r + lesion_fp r + lesion_fn r"
  from f have v: "lesion_F1 r = (if ?d = 0 then NaN else Float (real (2 * lesion_tp r) / real ?d))"
    by (simp add: f1_score_eq)
  have z: "?d = 0 \<longleftrightarrow> lesion_tp r = 0 \<and> lesion_fp r = 0 \<and> lesion_fn r = 0" by auto
  note s = compute_metrics_success(3) [OF c]
  have nan: "lesion_F1 r = NaN \<longleftrightarrow> n_ref_lesions r = 0 \<and> n_pred_lesions r = 0"
    using v z s by (auto split: if_splits)
  have rng: "\<forall>x. lesion_F1 r = Float x \<longrightarrow> 0 \<le> x \<and> x \<le> 1"
  proof (intro allI impI)
    fix x assume "lesion_F1 r = Float x"
    with v have d: "?d \<noteq> 0" and x: "x = real (2 * lesion_tp r) / real ?d"
      by (auto split: if_splits)
    from d have pos: "0 < real ?d" by linarith
    have le: "real (2 * lesion_tp r) \<le> real ?d" by simp
    have "0 \<le> real (2 * lesion_tp r) / real ?d" by (rule divide_nonneg_nonneg) simp_all
    moreover have "real (2 * lesion_tp r) / real ?d \<le> 1"
      using pos le by (simp only: divide_le_eq_1_pos)
    ultimately show "0 \<le> x \<and> x \<le> 1" by (simp only: x)
  qed
  from v z s nan rng l c show ?thesis by blast
qed

theorem f1_reported_witness:
  "\<exists>rows. compute_all_lesion_level_metrics [''c1'', ''c2''] ex_labels_dict ex_preds_dict 2
            = Inr rows \<and>
          map lesion_F1 rows = [Float 1, NaN] \<and>
          map lesion_tp rows = [2, 0] \<and> map lesion_fp rows = [0, 0] \<and>
          map lesion_fn rows = [0, 0] \<and>
          n_ref_lesions (rows ! 1) = 0 \<and> n_pred_lesions (rows ! 1) = 0"
proof -
  have "case compute_all_lesion_level_metrics [''c1'', ''c2''] ex_labels_dict ex_preds_dict 2 of
          Inr rows \<Rightarrow> map lesion_F1 rows = [Float 1, NaN] \<and> map lesion_tp rows = [2, 0] \<and>
                      map lesion_fp rows = [0, 0] \<and> map lesion_fn rows = [0, 0]
        | Inl e \<Rightarrow> False"
    by code_simp
  then obtain rows
    where e: "compute_all_lesion_level_metrics [''c1'', ''c2''] ex_labels_dict ex_preds_dict 2
                = Inr rows"
      and f: "map lesion_F1 rows = [Float 1, NaN]"
      and t: "map lesion_tp rows = [2, 0]" "map lesion_fp rows = [0, 0]"
             "map lesion_fn rows = [0, 0]"
    by (cases "compute_all_lesion_level_metrics [''c1'', ''c2''] ex_labels_dict ex_preds_dict 2")
       simp_all
  have "length (map lesion_F1 rows) = 2" by (simp only: f) simp
  then have len: "length rows = 2" by simp
  then have mem: "rows ! 1 \<in> set rows" by simp
  have "map lesion_F1 rows ! 1 = NaN" by (simp only: f) simp
  with len have nan: "lesion_F1 (rows ! 1) = NaN" by simp
  note fr = f1_reported [OF e mem]
  have iff: "lesion_F1 (rows ! 1) = NaN \<longleftrightarrow>
             n_ref_lesions (rows ! 1) = 0 \<and> n_pred_lesions (rows ! 1) = 0"
    by (rule conjunct1 [OF conjunct2 [OF conjunct2 [OF conjunct2 [OF fr]]]])
  from iff nan
  have z: "n_ref_lesions (rows ! 1) = 0 \<and> n_pred_lesions (rows ! 1) = 0" by (rule iffD1)
  show ?thesis
    by (rule exI [of _ rows]) (intro conjI, rule e, rule f, (rule t)+, (simp only: z)+)
qed

section \<open>Volumes of different shapes\<close>

text \<open>
  Claim C8, as the code has it. When the two volumes of a case differ in shape,
  \<^verbatim>\<open>compute_lesion_level_metrics\<close> raises \<^verbatim>\<open>ValueError\<close> (shapes that do not broadcast) or
  \<^verbatim>\<open>IndexError\<close> (a mask of the wrong shape). \<^verbatim>\<open>compute_all_lesion_level_metrics\<close> has no
  handler: a case list that contains such a case makes the whole call fail, and no
  table is returned.
\<close>

theorem shape_mismatch_aborts:
  assumes "cid \<in> set ids" and "labels_dict cid = Some labels" and "preds_dict cid = Some preds"
    and "shape labels \<noteq> shape preds"
  shows "(compute_lesion_level_metrics labels preds lesion_class = Inl ValueError \<or>
          compute_lesion_level_metrics labels preds lesion_class = Inl IndexError) \<and>
         (\<exists>e. compute_all_lesion_level_metrics ids labels_dict preds_dict lesion_class = Inl e)"
proof -
  note mm = compute_metrics_shape_mismatch [OF assms(4), of lesion_class]
  have "\<exists>e. compute_all_lesion_level_metrics ids labels_dict preds_dict lesion_class = Inl e"
  proof (cases "compute_all_lesion_level_metrics ids labels_dict preds_dict lesion_class")
    case (Inl e)
    then show ?thesis by blast
  next
    case (Inr rows)
    from compute_all_rows(1) [OF Inr] assms(1) obtain r where r: "r \<in> set rows" "case_id r = cid"
      by (metis (no_types, lifting) imageE list.set_map)
    from compute_all_rows(2) [OF Inr r(1)] r(2) assms(2,3) mm show ?thesis
      unfolding row_of_def by auto
  qed
  with mm show ?thesis by blast
qed

theorem shape_mismatch_aborts_witness:
  "''c2'' \<in> set [''c1'', ''c2''] \<and> ex_labels_dict ''c2'' = Some ex2_labels \<and>
   exM_preds_dict ''c2'' = Some exM_preds \<and> shape ex2_labels \<noteq> shape exM_preds \<and>
   (compute_lesion_level_metrics ex2_labels exM_preds 1 = Inl ValueError \<or>
    compute_lesion_level_metrics ex2_labels exM_preds 1 = Inl IndexError) \<and>
   (\<exists>e. compute_all_lesion_level_metrics [''c1'', ''c2''] ex_labels_dict exM_preds_dict 1 = Inl e)"
proof -
  have a: "''c2'' \<in> set [''c1'', ''c2'']" by simp
  have b: "ex_labels_dict ''c2'' = Some ex2_labels" by (simp add: ex_labels_dict_def)
  have c: "exM_preds_dict ''c2'' = Some exM_preds" by (simp add: exM_preds_dict_def)
  have d: "shape ex2_labels \<noteq> shape exM_preds" by code_simp
  note r = shape_mismatch_aborts [of "''c2''" "[''c1'', ''c2'']" ex_labels_dict ex2_labels
      exM_preds_dict exM_preds 1, OF a b c d]
  from r have r1: "compute_lesion_level_metrics ex2_labels exM_preds 1 = Inl ValueError \<or>
    compute_lesion_level_metrics ex2_labels exM_preds 1 = Inl IndexError" by (rule conjunct1)
  from r have r2: "\<exists>e. compute_all_lesion_level_metrics [''c1'', ''c2''] ex_labels_dict
      exM_preds_dict 1 = Inl e" by (rule conjunct2)
  show ?thesis by (intro conjI) (rule a, rule b, rule c, rule d, rule r1, rule r2)
qed

text \<open>
  The claim as stated fails: with a sound first case and a second case whose prediction has
  another shape, the cohort loop is aborted by \<^verbatim>\<open>ValueError\<close>, although the first case alone
  gives a table.
\<close>

theorem shape_mismatch_counterexample:
  "shape ex2_labels \<noteq> shape exM_preds \<and>
   compute_all_lesion_level_metrics [''c1'', ''c2''] ex_labels_dict exM_preds_dict 1
     = Inl ValueError \<and>
   (\<exists>rows. compute_all_lesion_level_metrics [''c1''] ex_labels_dict exM_preds_dict 1 = Inr rows)"
proof -
  have a: "shape ex2_labels \<noteq> shape exM_preds" by code_simp
  have b: "compute_all_lesion_level_metrics [''c1'', ''c2''] ex_labels_dict exM_preds_dict 1
     = Inl ValueError" by code_simp
  have "case compute_all_lesion_level_metrics [''c1''] ex_labels_dict exM_preds_dict 1 of
          Inr rows \<Rightarrow> True | Inl e \<Rightarrow> False" by code_simp
  then have c: "\<exists>rows. compute_all_lesion_level_metrics [''c1''] ex_labels_dict exM_preds_dict 1
     = Inr rows"
    by (cases "compute_all_lesion_level_metrics [''c1''] ex_labels_dict exM_preds_dict 1")
       simp_all
  from a b c show ?thesis by (intro conjI)
qed

end
